theory Spec2Isabelle
  imports Complex_Main "HOL-Library.Multiset"
begin

section \<open>Python values and dictionaries\<close>

text \<open>
  The panels work on the JSON that FFprobe prints, read into nested Python dictionaries.
  A value stored in a comparison list is \<open>None\<close>, an integer or a string.
\<close>

datatype pyval = PNone | PInt int | PStr string

text \<open>\<open>str(n)\<close> of a Python integer: decimal digits, a leading minus sign when negative.\<close>

definition digit_char :: "nat \<Rightarrow> char" where
  "digit_char d = ''0123456789'' ! d"

fun str_nat :: "nat \<Rightarrow> string" where
  "str_nat n = (if n < 10 then [digit_char n] else str_nat (n div 10) @ [digit_char (n mod 10)])"

declare str_nat.simps [simp del]

definition str_int :: "int \<Rightarrow> string" where
  "str_int i = (if i < 0 then CHR ''-'' # str_nat (nat (- i)) else str_nat (nat i))"

text \<open>What an f-string prints for a field read with \<open>.get\<close>: \<open>None\<close> when the key is absent.\<close>

fun fmt_int_opt :: "int option \<Rightarrow> string" where
  "fmt_int_opt None = ''None''"
| "fmt_int_opt (Some i) = str_int i"

fun pv_str :: "string option \<Rightarrow> pyval" where
  "pv_str None = PNone"
| "pv_str (Some s) = PStr s"

text \<open>
  A Python \<open>dict\<close> as an association list in insertion order with unique keys.
  \<open>d[k] = v\<close> replaces the value of a key already present, in place, and appends a new key.
\<close>

type_synonym ('k, 'v) dict = "('k \<times> 'v) list"

fun dict_set :: "'k \<Rightarrow> 'v \<Rightarrow> ('k, 'v) dict \<Rightarrow> ('k, 'v) dict" where
  "dict_set k v [] = [(k, v)]"
| "dict_set k v (p # d) = (if fst p = k then (k, v) # d else p # dict_set k v d)"

definition dict_values :: "('k, 'v) dict \<Rightarrow> 'v list" where
  "dict_values d = map snd d"

text \<open>
  \<open>a == b\<close> on two dictionaries: the same number of keys, and every key of \<open>a\<close> is a
  key of \<open>b\<close> with an equal value. The order of insertion plays no part.
\<close>

definition dict_eq :: "('k, 'v) dict \<Rightarrow> ('k, 'v) dict \<Rightarrow> bool" where
  "dict_eq a b = (length a = length b \<and> list_all (\<lambda>p. map_of b (fst p) = Some (snd p)) a)"

section \<open>concatenate.py: compare_media_param\<close>

text \<open>
  One entry of \<open>streams\<close>, as the keys that \<open>compare_media_param\<close> reads with \<open>.get\<close>;
  a key that is absent reads as \<open>None\<close>. FFprobe reports \<open>index\<close>, \<open>width\<close> and \<open>height\<close>
  as JSON integers and \<open>codec_type\<close>, \<open>codec_name\<close> as strings.
\<close>

record stream_info =
  codec_type :: "string option"
  index :: "int option"
  codec_name :: "string option"
  width :: "int option"
  height :: "int option"
  sample_rate :: pyval

text \<open>One item of \<open>data\<close>: \<open>format.filename\<close> and the list \<open>streams\<close>.\<close>

record probed_file =
  filename :: "string option"
  streams :: "stream_info list"

text \<open>
  The messages that \<open>compare_media_param\<close> can return, in the order of the source:
  ``At least two files are required to perform concatenation.'', ``Invalid data found'',
  and the message that the files differ in codec, sample rate, width or height.
  The function returns \<open>None\<close> when it finds nothing wrong.
\<close>

datatype concat_error = AtLeastTwoFiles | InvalidDataFound | StreamsMismatch

type_synonym signature = "(int option, pyval list) dict"

text \<open>\<open>f"{items.get('width')}x{items.get('height')}"\<close>\<close>

definition size_str :: "stream_info \<Rightarrow> string" where
  "size_str items = fmt_int_opt (width items) @ ''x'' @ fmt_int_opt (height items)"

text \<open>
  The body of the inner loop. For a video stream the entry under the stream's index becomes
  the list of codec name and size; for an audio stream, codec name and sample rate. The two
  tests are separate \<open>if\<close> statements, as in the source.
\<close>

definition add_stream :: "signature \<Rightarrow> stream_info \<Rightarrow> signature" where
  "add_stream d items =
     (let d1 = (if codec_type items = Some ''video''
                then dict_set (index items) [pv_str (codec_name items), PStr (size_str items)] d
                else d)
      in if codec_type items = Some ''audio''
         then dict_set (index items) [pv_str (codec_name items), sample_rate items] d1
         else d1)"

text \<open>\<open>com[name] = {}\<close> followed by the inner loop over the streams of one file.\<close>

definition file_signature :: "probed_file \<Rightarrow> signature" where
  "file_signature f = foldl add_stream [] (streams f)"

text \<open>The outer loop: the dictionary \<open>com\<close> from file name to signature.\<close>

definition build_com :: "probed_file list \<Rightarrow> (string option, signature) dict" where
  "build_com data = foldl (\<lambda>com f. dict_set (filename f) (file_signature f) com) [] data"

definition compare_media_param :: "probed_file list \<Rightarrow> concat_error option" where
  "compare_media_param data =
     (if length data = 1 then Some AtLeastTwoFiles
      else let com = build_com data in
        if com = [] then Some InvalidDataFound
        else let totest = hd (dict_values com) in
          if \<not> list_all (\<lambda>val. dict_eq val totest) (dict_values com)
          then Some StreamsMismatch
          else None)"

text \<open>Whether the comparison looks at a stream at all.\<close>

definition is_av :: "stream_info \<Rightarrow> bool" where
  "is_av items = (codec_type items = Some ''video'' \<or> codec_type items = Some ''audio'')"

definition drop_other_streams :: "probed_file \<Rightarrow> probed_file" where
  "drop_other_streams f = f\<lparr>streams := filter is_av (streams f)\<rparr>"

section \<open>sequence-to-video panel: the slideshow timing\<close>

text \<open>
  \<open>s.split()\<close> with no argument: the fields between runs of white space, none of them empty.
  A character stands for the code point of the same number, so the white space is that of
  \<open>str.isspace\<close> below \<open>U+0100\<close>: blank, tab, line feed, vertical tab, form feed, carriage
  return, the four separators \<open>0x1C\<close> to \<open>0x1F\<close>, next line \<open>0x85\<close> and the no-break space
  \<open>0xA0\<close>. Code points from \<open>U+0100\<close> on have no character in this model.
\<close>

definition is_space :: "char \<Rightarrow> bool" where
  "is_space c = (c \<in> set [CHR '' '', CHR 0x09, CHR 0x0A, CHR 0x0B, CHR 0x0C, CHR 0x0D,
                           CHR 0x1C, CHR 0x1D, CHR 0x1E, CHR 0x1F, CHR 0x85, CHR 0xA0])"

fun split_fields :: "string \<Rightarrow> string \<Rightarrow> string list" where
  "split_fields cur [] = (if cur = [] then [] else [cur])"
| "split_fields cur (c # cs) =
     (if is_space c then (if cur = [] then split_fields [] cs else cur # split_fields [] cs)
      else split_fields (cur @ [c]) cs)"

definition py_split :: "string \<Rightarrow> string list" where
  "py_split s = split_fields [] s"

text \<open>
  \<open>round(x)\<close> of a float, giving an integer: the nearest one, and the even one of the two
  when \<open>x\<close> lies halfway. The float is taken as the exact rational it stands for.
\<close>

definition py_round :: "rat \<Rightarrow> int" where
  "py_round x =
     (let f = \<lfloor>x\<rfloor>; d = x - of_int f
      in if d < 1 / 2 then f else if 1 / 2 < d then f + 1 else if even f then f else f + 1)"

text \<open>
  The three functions that the panel imports from \<open>videomass.vdms_utils.utils\<close> under the
  names \<open>getsec\<close>, \<open>getms\<close> and \<open>clockms\<close>. The module is not part of the sources at hand,
  so the panel's functions take them as a parameter and every result below holds for
  whatever they compute.
\<close>

record utils =
  get_seconds :: "string \<Rightarrow> rat"
  get_milliseconds :: "string \<Rightarrow> int"
  milliseconds2clock :: "int \<Rightarrow> string"

text \<open>The dictionary \<open>self.opt\<close>, with the keys it is created with in \<open>__init__\<close>.\<close>

record opts =
  Scale :: string
  Setdar :: string
  Setsar :: string
  RESIZE :: string
  ADuration :: int
  AudioMerging :: string
  Map :: string
  Shortest :: "string \<times> string"
  Interval :: pyval
  Clock :: string
  Preinput :: string
  Fps :: "string \<times> string"

definition initial_opt :: opts where
  "initial_opt =
     \<lparr>Scale = '''', Setdar = '''', Setsar = '''', RESIZE = '''', ADuration = 0,
      AudioMerging = '''', Map = ''-map 0:v?'', Shortest = ('''', ''Disabled''),
      Interval = PStr '''', Clock = ''00:00:00:000'', Preinput = ''1/0'',
      Fps = (''fps=10,'', ''10'')\<rparr>"

text \<open>
  What the two command builders and \<open>get_args_line\<close> read of the panel and of its parent,
  the main frame: the option dictionary, the state of the check boxes and of the text field
  for additional parameters, the list of source files and the time sequence
  (\<open>-ss HH:MM:SS.mmm -t HH:MM:SS.mmm\<close>).
\<close>

record panel =
  opt :: opts
  ckbx_audio :: bool
  ckbx_static_img :: bool
  txt_addparams_enabled :: bool
  txt_addparams_value :: string
  file_src :: "string list"
  time_seq :: string

text \<open>\<open>'-framerate 1/1' if not sec else f'-framerate 1/{sec}'\<close>\<close>

definition framerate :: "int \<Rightarrow> string" where
  "framerate secs = (if secs = 0 then ''-framerate 1/1'' else ''-framerate 1/'' @ str_int secs)"

text \<open>The string \<open>cmd_2\<close>, built alike by both builders; \<open>CHR 0x22\<close> is the double quote.\<close>

definition cmd_2 :: "opts \<Rightarrow> string \<Rightarrow> string" where
  "cmd_2 ops addparam =
     AudioMerging ops @ '' '' @ addparam @ '' -vf '' @ [CHR 0x22] @ fst (Fps ops)
       @ ''format=yuv420p'' @ [CHR 0x22] @ '' '' @ Map ops @ '' '' @ fst (Shortest ops)"

definition addparam :: "panel \<Rightarrow> string" where
  "addparam self = (if txt_addparams_enabled self then txt_addparams_value self else '''')"

text \<open>
  The branch of \<open>build_command_slideshow\<close> on the audio check box and on the first item of
  \<open>opt["Shortest"]\<close>, giving \<open>loop\<close>, \<open>duration\<close>, the clock and \<open>sec\<close>.
\<close>

definition slideshow_timing :: "utils \<Rightarrow> panel \<Rightarrow> string \<Rightarrow> string \<times> int \<times> string \<times> int" where
  "slideshow_timing U self timeline =
     (if ckbx_audio self then
        (if fst (Shortest (opt self)) \<noteq> '''' then
           (let duration = get_milliseconds U timeline * int (length (file_src self))
            in ('''', duration, milliseconds2clock U duration, py_round (get_seconds U timeline)))
         else
           (let clock = milliseconds2clock U (ADuration (opt self))
            in (''-loop 1 -t '' @ clock, ADuration (opt self), clock,
                py_round (get_seconds U timeline))))
      else
        (let duration = get_milliseconds U timeline * int (length (file_src self))
         in ('''', duration, milliseconds2clock U duration, py_round (get_seconds U timeline))))"

text \<open>
  \<open>build_command_slideshow\<close> returns the pair of \<open>cmd_2\<close> and \<open>duration\<close>, and leaves the
  clock, the pre-input options and the interval in \<open>self.opt\<close>; the model returns the
  updated dictionary beside the pair.
\<close>

definition build_command_slideshow :: "utils \<Rightarrow> panel \<Rightarrow> string \<Rightarrow> (string \<times> int) \<times> opts" where
  "build_command_slideshow U self timeline =
     (case slideshow_timing U self timeline of (loop, duration, clock, secs) \<Rightarrow>
        (let ops = (opt self)\<lparr>Clock := clock,
                                Preinput := loop @ '' '' @ framerate secs,
                                Interval := PInt secs\<rparr>
         in ((cmd_2 ops (addparam self), duration), ops)))"

text \<open>
  The same branch in \<open>build_command_loop_image\<close>, giving \<open>duration\<close>, the clock and \<open>sec\<close>.
  The quotient \<open>x / 1000\<close> is a float in the source and exact here; the two agree as long
  as the float holds the quotient closely enough to round alike, which is so for every
  duration below \<open>2^51\<close> milliseconds. Only \<open>sec\<close> is touched by this, never \<open>duration\<close>.
\<close>

definition loop_image_timing :: "utils \<Rightarrow> panel \<Rightarrow> string \<Rightarrow> int \<times> string \<times> int" where
  "loop_image_timing U self timeline =
     (if ckbx_audio self then
        (if fst (Shortest (opt self)) \<noteq> '''' then
           (get_milliseconds U timeline, timeline, py_round (get_seconds U timeline))
         else
           (ADuration (opt self), milliseconds2clock U (ADuration (opt self)),
            py_round (of_int (ADuration (opt self)) / 1000)))
      else
        (get_milliseconds U timeline, timeline,
         py_round (of_int (get_milliseconds U timeline) / 1000)))"

definition build_command_loop_image :: "utils \<Rightarrow> panel \<Rightarrow> string \<Rightarrow> (string \<times> int) \<times> opts" where
  "build_command_loop_image U self timeline =
     (case loop_image_timing U self timeline of (duration, clock, secs) \<Rightarrow>
        (let ops = (opt self)\<lparr>Clock := clock,
                                Preinput := ''-loop 1 -t '' @ clock,
                                Interval := PInt secs\<rparr>
         in ((cmd_2 ops (addparam self), duration), ops)))"

text \<open>
  \<open>get_args_line\<close>. Reading the fourth field of a time sequence that has fewer fields raises
  \<open>IndexError\<close>; that is the only way the function can fail. \<open>get_timeline\<close> is its
  first statement: a duration of zero is replaced by one second.
\<close>

datatype py_error = IndexError

definition get_timeline :: "string list \<Rightarrow> string" where
  "get_timeline toks = (if toks ! 3 = ''00:00:00.000'' then ''00:00:01.000'' else toks ! 3)"

definition get_args_line :: "utils \<Rightarrow> panel \<Rightarrow> py_error + ((string \<times> int) \<times> opts)" where
  "get_args_line U self =
     (let toks = py_split (time_seq self) in
      if length toks \<le> 3 then Inl IndexError
      else
        (let timeline = get_timeline toks
         in if ckbx_static_img self then Inr (build_command_loop_image U self timeline)
            else Inr (build_command_slideshow U self timeline)))"

section \<open>Clock helpers for running the panel on concrete inputs\<close>

text \<open>
  Modelled from the spec: \<open>get_seconds\<close>, \<open>get_milliseconds\<close> and \<open>milliseconds2clock\<close> of
  \<open>videomass.vdms_utils.utils\<close>, which is missing from the sources. The spec fixes the
  clock as \<open>HH:MM:SS.mmm\<close>, zero-padded, the hours not rolled over into days, and takes
  seconds as milliseconds divided by 1000. These definitions serve only to evaluate the
  panel's functions on concrete inputs; no general result depends on them.
\<close>

definition pad_zero :: "nat \<Rightarrow> string \<Rightarrow> string" where
  "pad_zero n s = replicate (n - length s) CHR ''0'' @ s"

definition clock_of_ms :: "int \<Rightarrow> string" where
  "clock_of_ms ms =
     pad_zero 2 (str_int (ms div 3600000)) @ '':'' @ pad_zero 2 (str_int (ms div 60000 mod 60))
       @ '':'' @ pad_zero 2 (str_int (ms div 1000 mod 60)) @ ''.'' @ pad_zero 3 (str_int (ms mod 1000))"

definition digit_val :: "char \<Rightarrow> nat" where
  "digit_val c = length (takeWhile (\<lambda>d. d \<noteq> c) ''0123456789'')"

definition nat_of_digits :: "string \<Rightarrow> nat" where
  "nat_of_digits s = foldl (\<lambda>a c. 10 * a + digit_val c) 0 s"

fun split_on :: "char \<Rightarrow> string \<Rightarrow> string list" where
  "split_on c [] = [[]]"
| "split_on c (x # xs) =
     (if x = c then [] # split_on c xs
      else (case split_on c xs of [] \<Rightarrow> [[x]] | y # ys \<Rightarrow> (x # y) # ys))"

definition ms_of_clock :: "string \<Rightarrow> int" where
  "ms_of_clock t =
     (case split_on CHR '':'' t of
        [h, m, s] \<Rightarrow>
          (case split_on CHR ''.'' s of
             [whole, part] \<Rightarrow> int (3600000 * nat_of_digits h + 60000 * nat_of_digits m
                                   + 1000 * nat_of_digits whole + nat_of_digits part)
           | _ \<Rightarrow> 0)
      | _ \<Rightarrow> 0)"

definition clock_utils :: utils where
  "clock_utils =
     \<lparr>get_seconds = (\<lambda>t. of_int (ms_of_clock t) / 1000),
      get_milliseconds = ms_of_clock,
      milliseconds2clock = clock_of_ms\<rparr>"

text \<open>Three images, no audio, one second each: the panel as it stands after the images are loaded.\<close>

definition three_images :: panel where
  "three_images =
     \<lparr>opt = initial_opt, ckbx_audio = False, ckbx_static_img = False,
      txt_addparams_enabled = False, txt_addparams_value = '''',
      file_src = [''a.png'', ''b.png'', ''c.png''],
      time_seq = ''-ss 00:00:00.000 -t 00:00:01.000''\<rparr>"

text \<open>Streams as FFprobe reports them, for the concrete runs of \<open>compare_media_param\<close>.\<close>

definition video_1080 :: stream_info where
  "video_1080 =
     \<lparr>codec_type = Some ''video'', index = Some 0, codec_name = Some ''h264'',
      width = Some 1920, height = Some 1080, sample_rate = PNone\<rparr>"

definition audio_44100 :: stream_info where
  "audio_44100 =
     \<lparr>codec_type = Some ''audio'', index = Some 1, codec_name = Some ''aac'',
      width = None, height = None, sample_rate = PStr ''44100''\<rparr>"

definition subtitle_stream :: stream_info where
  "subtitle_stream =
     \<lparr>codec_type = Some ''subtitle'', index = Some 2, codec_name = Some ''subrip'',
      width = None, height = None, sample_rate = PNone\<rparr>"

text \<open>The three images with an audio track of 12345 ms and the ``shortest'' box ticked.\<close>

definition with_audio :: panel where
  "with_audio =
     three_images\<lparr>ckbx_audio := True,
                   opt := initial_opt\<lparr>ADuration := 12345, Map := ''-map 0:v:0 -map 1:a:0'',
                                        Shortest := ('''', ''Disabled'')\<rparr>\<rparr>"

text \<open>Helpers that report a per-image duration of minus two seconds.\<close>

definition negative_utils :: utils where
  "negative_utils = clock_utils\<lparr>get_milliseconds := (\<lambda>t. - 2000), get_seconds := (\<lambda>t. - 2)\<rparr>"

section \<open>Facts about dictionaries\<close>

lemma dict_set_keys: "fst ` set (dict_set k v d) = insert k (fst ` set d)"
  by (induction d) auto

lemma dict_set_distinct: "distinct (map fst d) \<Longrightarrow> distinct (map fst (dict_set k v d))"
proof (induction d)
  case Nil
  then show ?case by simp
next
  case (Cons p d)
  then show ?case using dict_set_keys [of k v d] by (auto simp: image_iff)
qed

lemma dict_set_map_of: "map_of (dict_set k v d) = (map_of d)(k \<mapsto> v)"
  by (induction d) (auto simp: fun_eq_iff)

lemma dict_set_not_empty: "dict_set k v d \<noteq> []"
  by (cases d) auto

lemma dict_set_values: "set (map snd (dict_set k v d)) \<subseteq> insert v (set (map snd d))"
  by (induction d) auto

lemma dict_eq_lookup:
  assumes "dict_eq a b" and "distinct (map fst a)" and "map_of a k = Some v"
  shows "map_of b k = Some v"
proof -
  from assms(3) have "(k, v) \<in> set a" by (rule map_of_SomeD)
  with assms(1) show ?thesis by (auto simp: dict_eq_def list_all_iff)
qed

lemma dict_eq_refl: "distinct (map fst a) \<Longrightarrow> dict_eq a a"
  by (auto simp: dict_eq_def list_all_iff)

section \<open>Facts about the rendering of integers\<close>

lemma digits_distinct: "distinct ''0123456789''"
  by simp

lemma digit_char_mem: "d < 10 \<Longrightarrow> digit_char d \<in> set ''0123456789''"
  unfolding digit_char_def by (rule nth_mem) simp

lemma digit_char_inj: "d < 10 \<Longrightarrow> e < 10 \<Longrightarrow> digit_char d = digit_char e \<Longrightarrow> d = e"
  unfolding digit_char_def using digits_distinct by (subst (asm) nth_eq_iff_index_eq) simp_all

lemma str_nat_digits: "c \<in> set (str_nat n) \<Longrightarrow> c \<in> set ''0123456789''"
proof (induction n rule: str_nat.induct)
  case (1 n)
  show ?case
  proof (cases "n < 10")
    case True
    with "1.prems" have "c = digit_char n" by (simp add: str_nat.simps [of n])
    with True show ?thesis by (simp only: digit_char_mem)
  next
    case False
    with "1.prems" have "c \<in> set (str_nat (n div 10)) \<or> c = digit_char (n mod 10)"
      by (auto simp: str_nat.simps [of n])
    then show ?thesis
    proof
      assume "c \<in> set (str_nat (n div 10))"
      with False show ?thesis by (rule "1.IH")
    next
      assume "c = digit_char (n mod 10)"
      moreover have "n mod 10 < 10" by simp
      ultimately show ?thesis by (simp only: digit_char_mem)
    qed
  qed
qed

lemma str_nat_not_empty: "str_nat n \<noteq> []"
  by (subst str_nat.simps) simp

lemma str_nat_inj: "str_nat n = str_nat m \<Longrightarrow> n = m"
proof (induction n arbitrary: m rule: str_nat.induct)
  case (1 n)
  show ?case
  proof (cases "n < 10")
    case n: True
    show ?thesis
    proof (cases "m < 10")
      case True
      with n "1.prems" show ?thesis
        by (simp add: str_nat.simps [of n] str_nat.simps [of m] digit_char_inj)
    next
      case False
      with n "1.prems" str_nat_not_empty [of "m div 10"] show ?thesis
        by (simp add: str_nat.simps [of n] str_nat.simps [of m])
    qed
  next
    case n: False
    show ?thesis
    proof (cases "m < 10")
      case True
      with n "1.prems" str_nat_not_empty [of "n div 10"] show ?thesis
        by (simp add: str_nat.simps [of n] str_nat.simps [of m])
    next
      case False
      with n "1.prems" have e: "str_nat (n div 10) = str_nat (m div 10)"
        and d: "digit_char (n mod 10) = digit_char (m mod 10)"
        by (simp_all add: str_nat.simps [of n] str_nat.simps [of m])
      from n e have "n div 10 = m div 10" by (rule "1.IH")
      moreover from d have "n mod 10 = m mod 10" by (simp add: digit_char_inj)
      ultimately show ?thesis by (metis div_mult_mod_eq)
    qed
  qed
qed

lemma str_nat_no_minus: "CHR ''-'' \<notin> set (str_nat n)"
proof
  assume "CHR ''-'' \<in> set (str_nat n)"
  then have "CHR ''-'' \<in> set ''0123456789''" by (rule str_nat_digits)
  then show False by simp
qed

lemma str_int_inj: "str_int i = str_int j \<Longrightarrow> i = j"
proof -
  assume a: "str_int i = str_int j"
  have hdn: "\<And>n. hd (str_nat n) \<noteq> CHR ''-''"
    using str_nat_no_minus str_nat_not_empty by (metis hd_in_set)
  show ?thesis
  proof (cases "i < 0")
    case i: True
    show ?thesis
    proof (cases "j < 0")
      case True
      with i a have "str_nat (nat (- i)) = str_nat (nat (- j))" by (simp add: str_int_def)
      then have "nat (- i) = nat (- j)" by (rule str_nat_inj)
      with i True show ?thesis by simp
    next
      case False
      with i a have "CHR ''-'' # str_nat (nat (- i)) = str_nat (nat j)" by (simp add: str_int_def)
      then have "hd (str_nat (nat j)) = CHR ''-''" by (metis list.sel(1))
      with hdn show ?thesis by simp
    qed
  next
    case i: False
    show ?thesis
    proof (cases "j < 0")
      case True
      with i a have "str_nat (nat i) = CHR ''-'' # str_nat (nat (- j))" by (simp add: str_int_def)
      then have "hd (str_nat (nat i)) = CHR ''-''" by (metis list.sel(1))
      with hdn show ?thesis by simp
    next
      case False
      with i a have "str_nat (nat i) = str_nat (nat j)" by (simp add: str_int_def)
      then have "nat i = nat j" by (rule str_nat_inj)
      with i False show ?thesis by simp
    qed
  qed
qed

lemma str_int_chars: "c \<in> set (str_int i) \<Longrightarrow> c \<in> set ''-0123456789''"
proof -
  assume "c \<in> set (str_int i)"
  then have "c = CHR ''-'' \<or> c \<in> set (str_nat (nat (- i))) \<or> c \<in> set (str_nat (nat i))"
    by (auto simp: str_int_def split: if_splits)
  then have "c = CHR ''-'' \<or> c \<in> set ''0123456789''" using str_nat_digits by blast
  then show ?thesis by auto
qed

lemma str_int_not_None: "str_int i \<noteq> ''None''"
proof
  assume "str_int i = ''None''"
  then have "CHR ''N'' \<in> set (str_int i)" by simp
  then have "CHR ''N'' \<in> set ''-0123456789''" by (rule str_int_chars)
  then show False by simp
qed

lemma fmt_int_opt_inj: "fmt_int_opt a = fmt_int_opt b \<Longrightarrow> a = b"
  using str_int_not_None by (cases a; cases b) (auto dest: str_int_inj simp: eq_commute)

lemma fmt_int_opt_no_x: "CHR ''x'' \<notin> set (fmt_int_opt a)"
proof (cases a)
  case None
  then show ?thesis by simp
next
  case (Some i)
  show ?thesis
  proof
    assume "CHR ''x'' \<in> set (fmt_int_opt a)"
    with Some have "CHR ''x'' \<in> set (str_int i)" by simp
    then have "CHR ''x'' \<in> set ''-0123456789''" by (rule str_int_chars)
    then show False by simp
  qed
qed

lemma split_at_sep:
  "xs @ c # ys = xs' @ c # ys' \<Longrightarrow> c \<notin> set xs \<Longrightarrow> c \<notin> set xs' \<Longrightarrow> xs = xs' \<and> ys = ys'"
proof (induction xs arbitrary: xs')
  case Nil
  then show ?case by (cases xs') auto
next
  case (Cons a xs)
  then show ?case by (cases xs') auto
qed

lemma size_str_inj:
  assumes "size_str s = size_str t"
  shows "width s = width t \<and> height s = height t"
proof -
  from assms have "fmt_int_opt (width s) @ CHR ''x'' # fmt_int_opt (height s)
      = fmt_int_opt (width t) @ CHR ''x'' # fmt_int_opt (height t)"
    by (simp add: size_str_def)
  then have "fmt_int_opt (width s) = fmt_int_opt (width t)
      \<and> fmt_int_opt (height s) = fmt_int_opt (height t)"
    using fmt_int_opt_no_x [of "width s"] fmt_int_opt_no_x [of "width t"] by (rule split_at_sep)
  then show ?thesis by (simp add: fmt_int_opt_inj)
qed

section \<open>Facts about signatures\<close>

lemma add_stream_distinct: "distinct (map fst d) \<Longrightarrow> distinct (map fst (add_stream d s))"
  by (simp add: add_stream_def Let_def dict_set_distinct)

lemma foldl_add_stream_distinct:
  "distinct (map fst d) \<Longrightarrow> distinct (map fst (foldl add_stream d xs))"
  by (induction xs arbitrary: d) (simp_all add: add_stream_distinct)

lemma file_signature_distinct: "distinct (map fst (file_signature f))"
  by (simp add: file_signature_def foldl_add_stream_distinct)

lemma foldl_com_values:
  "set (map snd (foldl (\<lambda>com f. dict_set (filename f) (file_signature f) com) c data))
     \<subseteq> set (map snd c) \<union> file_signature ` set data"
proof (induction data arbitrary: c)
  case Nil
  then show ?case by simp
next
  case (Cons f data)
  have "set (map snd (dict_set (filename f) (file_signature f) c))
          \<subseteq> insert (file_signature f) (set (map snd c))"
    by (rule dict_set_values)
  with Cons [of "dict_set (filename f) (file_signature f) c"] show ?case by auto
qed

lemma build_com_values: "set (dict_values (build_com data)) \<subseteq> file_signature ` set data"
  using foldl_com_values [of "[]" data] by (simp add: build_com_def dict_values_def)

lemma foldl_com_not_empty:
  "c \<noteq> [] \<or> data \<noteq> [] \<Longrightarrow>
     foldl (\<lambda>com f. dict_set (filename f) (file_signature f) com) c data \<noteq> []"
  by (induction data arbitrary: c) (simp_all add: dict_set_not_empty)

lemma build_com_not_empty: "data \<noteq> [] \<Longrightarrow> build_com data \<noteq> []"
  by (simp add: build_com_def foldl_com_not_empty)

lemma build_com_Nil: "build_com [] = []"
  by (simp add: build_com_def)

lemma same_signatures_pass:
  assumes len: "length data \<noteq> 1" and ne: "data \<noteq> []"
    and same: "\<forall>f\<in>set data. \<forall>g\<in>set data. dict_eq (file_signature f) (file_signature g)"
  shows "compare_media_param data = None"
proof -
  let ?com = "build_com data"
  have vals: "set (dict_values ?com) \<subseteq> file_signature ` set data" by (rule build_com_values)
  have "?com \<noteq> []" using ne by (rule build_com_not_empty)
  then have "dict_values ?com \<noteq> []" by (simp add: dict_values_def)
  then have "hd (dict_values ?com) \<in> set (dict_values ?com)" by simp
  with vals have hd_in: "hd (dict_values ?com) \<in> file_signature ` set data" by blast
  have "list_all (\<lambda>val. dict_eq val (hd (dict_values ?com))) (dict_values ?com)"
    unfolding list_all_iff
  proof
    fix val assume "val \<in> set (dict_values ?com)"
    with vals have "val \<in> file_signature ` set data" by blast
    with hd_in same show "dict_eq val (hd (dict_values ?com))" by auto
  qed
  with len \<open>?com \<noteq> []\<close> show ?thesis by (simp add: compare_media_param_def Let_def)
qed

lemma add_stream_other: "\<not> is_av s \<Longrightarrow> add_stream d s = d"
  by (simp add: add_stream_def is_av_def)

lemma foldl_add_stream_filter:
  "foldl add_stream d (filter is_av xs) = foldl add_stream d xs"
  by (induction xs arbitrary: d) (simp_all add: add_stream_other)

lemma file_signature_drop: "file_signature (drop_other_streams f) = file_signature f"
  by (simp add: file_signature_def drop_other_streams_def foldl_add_stream_filter)

lemma filename_drop: "filename (drop_other_streams f) = filename f"
  by (simp add: drop_other_streams_def)

lemma foldl_com_drop:
  "foldl (\<lambda>com f. dict_set (filename f) (file_signature f) com) c (map drop_other_streams data)
     = foldl (\<lambda>com f. dict_set (filename f) (file_signature f) com) c data"
  by (induction data arbitrary: c) (simp_all add: file_signature_drop filename_drop)

lemma build_com_drop: "build_com (map drop_other_streams data) = build_com data"
  by (simp add: build_com_def foldl_com_drop)

lemma no_av_signature: "\<forall>s\<in>set (streams f). \<not> is_av s \<Longrightarrow> file_signature f = []"
proof -
  assume a: "\<forall>s\<in>set (streams f). \<not> is_av s"
  then have "filter is_av (streams f) = []" by (simp add: filter_empty_conv)
  then have "foldl add_stream [] (filter is_av (streams f)) = []" by simp
  then show ?thesis by (simp add: file_signature_def foldl_add_stream_filter)
qed

lemma add_stream_lookup_other:
  "(is_av s \<longrightarrow> index s \<noteq> k) \<Longrightarrow> map_of (add_stream d s) k = map_of d k"
  by (auto simp: add_stream_def is_av_def Let_def dict_set_map_of)

lemma foldl_add_stream_lookup_other:
  "\<forall>t\<in>set xs. is_av t \<longrightarrow> index t \<noteq> k \<Longrightarrow> map_of (foldl add_stream d xs) k = map_of d k"
  by (induction xs arbitrary: d) (simp_all add: add_stream_lookup_other)

lemma add_stream_lookup_video:
  "codec_type s = Some ''video'' \<Longrightarrow>
     map_of (add_stream d s) (index s) = Some [pv_str (codec_name s), PStr (size_str s)]"
  by (simp add: add_stream_def Let_def dict_set_map_of)

lemma add_stream_lookup_audio:
  "codec_type s = Some ''audio'' \<Longrightarrow>
     map_of (add_stream d s) (index s) = Some [pv_str (codec_name s), sample_rate s]"
  by (simp add: add_stream_def Let_def dict_set_map_of)

lemma signature_lookup:
  assumes "streams f = pre @ s # post" and "\<forall>t\<in>set post. is_av t \<longrightarrow> index t \<noteq> index s"
  shows "map_of (file_signature f) (index s) = map_of (add_stream (foldl add_stream [] pre) s) (index s)"
  using assms by (simp add: file_signature_def foldl_add_stream_lookup_other)

lemma two_files_mismatch:
  assumes names: "filename f1 \<noteq> filename f2"
    and l1: "map_of (file_signature f1) k = Some e1"
    and l2: "map_of (file_signature f2) k = Some e2"
    and ne: "e1 \<noteq> e2"
  shows "compare_media_param [f1, f2] = Some StreamsMismatch"
proof -
  have "\<not> dict_eq (file_signature f2) (file_signature f1)"
  proof
    assume "dict_eq (file_signature f2) (file_signature f1)"
    then have "map_of (file_signature f1) k = Some e2"
      using file_signature_distinct l2 by (rule dict_eq_lookup)
    with l1 ne show False by simp
  qed
  with names show ?thesis
    by (simp add: compare_media_param_def build_com_def dict_values_def Let_def)
qed

text \<open>
  When the file names of the sequence are pairwise different, every file keeps its own entry
  in \<open>com\<close>, and the outcome depends on the set of files only, not on their order.
\<close>

lemma dict_eq_iff_map_of:
  assumes da: "distinct (map fst a)" and db: "distinct (map fst b)"
  shows "dict_eq a b \<longleftrightarrow> map_of a = map_of b"
proof
  assume e: "dict_eq a b"
  then have len: "length a = length b"
    and all: "\<forall>p\<in>set a. map_of b (fst p) = Some (snd p)"
    by (simp_all add: dict_eq_def list_all_iff)
  have sub: "fst ` set a \<subseteq> fst ` set b"
  proof
    fix k assume "k \<in> fst ` set a"
    then obtain p where "p \<in> set a" and "k = fst p" by auto
    with all have "map_of b k = Some (snd p)" by simp
    then have "k \<in> dom (map_of b)" by blast
    then show "k \<in> fst ` set b" by (simp add: dom_map_of_conv_image_fst)
  qed
  have "card (fst ` set a) = length a" using da distinct_card [of "map fst a"] by simp
  moreover have "card (fst ` set b) = length b" using db distinct_card [of "map fst b"] by simp
  ultimately have "card (fst ` set a) = card (fst ` set b)" using len by simp
  with sub have keys: "fst ` set a = fst ` set b" by (simp add: card_subset_eq)
  show "map_of a = map_of b"
  proof
    fix k
    show "map_of a k = map_of b k"
    proof (cases "k \<in> fst ` set a")
      case True
      then obtain v where "(k, v) \<in> set a" by auto
      with da all have "map_of a k = Some v" "map_of b k = Some v" by auto
      then show ?thesis by simp
    next
      case False
      with keys have "map_of a k = None" "map_of b k = None"
        by (simp_all add: map_of_eq_None_iff)
      then show ?thesis by simp
    qed
  qed
next
  assume m: "map_of a = map_of b"
  then have "dom (map_of a) = dom (map_of b)" by simp
  then have keys: "fst ` set a = fst ` set b" by (simp add: dom_map_of_conv_image_fst)
  have "card (fst ` set a) = length a" using da distinct_card [of "map fst a"] by simp
  moreover have "card (fst ` set b) = length b" using db distinct_card [of "map fst b"] by simp
  ultimately have len: "length a = length b" using keys by simp
  have "\<forall>p\<in>set a. map_of b (fst p) = Some (snd p)"
  proof
    fix p assume "p \<in> set a"
    with da have "map_of a (fst p) = Some (snd p)" by simp
    with m show "map_of b (fst p) = Some (snd p)" by simp
  qed
  with len show "dict_eq a b" by (simp add: dict_eq_def list_all_iff)
qed

lemma signature_eq_iff:
  "dict_eq (file_signature f) (file_signature g)
     \<longleftrightarrow> map_of (file_signature f) = map_of (file_signature g)"
  by (rule dict_eq_iff_map_of) (rule file_signature_distinct)+

lemma dict_set_new: "k \<notin> fst ` set d \<Longrightarrow> dict_set k v d = d @ [(k, v)]"
  by (induction d) auto

lemma foldl_com_distinct_names:
  "distinct (map filename data) \<Longrightarrow> filename ` set data \<inter> fst ` set c = {} \<Longrightarrow>
     foldl (\<lambda>com f. dict_set (filename f) (file_signature f) com) c data
       = c @ map (\<lambda>f. (filename f, file_signature f)) data"
proof (induction data arbitrary: c)
  case Nil
  then show ?case by simp
next
  case (Cons f data)
  from Cons.prems(2) have new: "filename f \<notin> fst ` set c" by auto
  then have step: "dict_set (filename f) (file_signature f) c = c @ [(filename f, file_signature f)]"
    by (rule dict_set_new)
  from Cons.prems have "filename ` set data \<inter> fst ` set (c @ [(filename f, file_signature f)]) = {}"
    by auto
  with Cons.prems(1) Cons.IH [of "c @ [(filename f, file_signature f)]"] step
  show ?case by simp
qed

lemma build_com_distinct_names:
  "distinct (map filename data) \<Longrightarrow> dict_values (build_com data) = map file_signature data"
  using foldl_com_distinct_names [of data "[]"]
  by (simp add: build_com_def dict_values_def comp_def)

lemma compare_media_param_distinct_names:
  assumes "distinct (map filename data)" and "length data \<noteq> 1" and "data \<noteq> []"
  shows "compare_media_param data =
     (if \<forall>f\<in>set data. \<forall>g\<in>set data. map_of (file_signature f) = map_of (file_signature g)
      then None else Some StreamsMismatch)"
proof -
  have if_swap: "\<And>b (x::concat_error option) y. (if \<not> b then x else y) = (if b then y else x)"
    by simp
  have trans_sym: "\<And>(x::'a) y z. x = z \<Longrightarrow> y = z \<Longrightarrow> x = y" by simp
  let ?P = "\<forall>f\<in>set data. \<forall>g\<in>set data. map_of (file_signature f) = map_of (file_signature g)"
  let ?vals = "dict_values (build_com data)"
  have vals: "?vals = map file_signature data"
    using assms(1) by (rule build_com_distinct_names)
  have ne: "build_com data \<noteq> []" using assms(3) by (rule build_com_not_empty)
  have hd_vals: "hd ?vals = file_signature (hd data)"
    using assms(3) by (simp add: vals hd_map)
  have mem: "hd data \<in> set data" using assms(3) by simp
  have "list_all (\<lambda>val. dict_eq val (hd ?vals)) ?vals
      \<longleftrightarrow> (\<forall>f\<in>set data. dict_eq (file_signature f) (file_signature (hd data)))"
    by (simp only: hd_vals) (simp only: vals list_all_iff set_map ball_simps)
  also have "\<dots> \<longleftrightarrow> (\<forall>f\<in>set data. map_of (file_signature f) = map_of (file_signature (hd data)))"
    by (simp only: signature_eq_iff)
  also have "\<dots> \<longleftrightarrow> ?P"
  proof
    assume a: "\<forall>f\<in>set data. map_of (file_signature f) = map_of (file_signature (hd data))"
    show ?P
    proof (intro ballI)
      fix f g assume "f \<in> set data" and "g \<in> set data"
      from a \<open>f \<in> set data\<close>
      have "map_of (file_signature f) = map_of (file_signature (hd data))" by (rule bspec)
      moreover from a \<open>g \<in> set data\<close>
      have "map_of (file_signature g) = map_of (file_signature (hd data))" by (rule bspec)
      ultimately show "map_of (file_signature f) = map_of (file_signature g)" by (rule trans_sym)
    qed
  next
    assume p: ?P
    show "\<forall>f\<in>set data. map_of (file_signature f) = map_of (file_signature (hd data))"
    proof
      fix f assume "f \<in> set data"
      with p have "\<forall>g\<in>set data. map_of (file_signature f) = map_of (file_signature g)"
        by (rule bspec)
      then show "map_of (file_signature f) = map_of (file_signature (hd data))"
        using mem by (rule bspec)
    qed
  qed
  finally have all_eq: "list_all (\<lambda>val. dict_eq val (hd ?vals)) ?vals \<longleftrightarrow> ?P" .
  have "compare_media_param data =
      (if \<not> list_all (\<lambda>val. dict_eq val (hd ?vals)) ?vals then Some StreamsMismatch else None)"
    using assms(2) ne by (simp add: compare_media_param_def Let_def)
  also have "\<dots> = (if ?P then None else Some StreamsMismatch)"
    by (simp only: all_eq if_swap)
  finally show ?thesis .
qed

lemma compare_media_param_permutation:
  assumes "distinct (map filename data)" and "mset data' = mset data"
  shows "compare_media_param data' = compare_media_param data"
proof -
  from assms(2) have s: "set data' = set data" by (rule mset_eq_setD)
  from assms(2) have l: "length data' = length data" by (rule mset_eq_length)
  from assms(2) have "mset (map filename data') = mset (map filename data)" by simp
  with assms(1) have d: "distinct (map filename data')" by (metis mset_eq_imp_distinct_iff)
  show ?thesis
  proof (cases "length data = 1 \<or> data = []")
    case True
    with l show ?thesis by (auto simp: compare_media_param_def build_com_def)
  next
    case False
    with l have "length data' \<noteq> 1" "data' \<noteq> []" by auto
    with d s have "compare_media_param data' =
       (if \<forall>f\<in>set data. \<forall>g\<in>set data. map_of (file_signature f) = map_of (file_signature g)
        then None else Some StreamsMismatch)"
      by (simp add: compare_media_param_distinct_names)
    moreover from False assms(1) have "compare_media_param data =
       (if \<forall>f\<in>set data. \<forall>g\<in>set data. map_of (file_signature f) = map_of (file_signature g)
        then None else Some StreamsMismatch)"
      by (simp add: compare_media_param_distinct_names)
    ultimately show ?thesis by simp
  qed
qed

section \<open>Facts about rounding and the frame rate\<close>

lemma py_round_nearest: "\<bar>of_int (py_round x) - x\<bar> \<le> 1 / 2"
proof -
  have "of_int \<lfloor>x\<rfloor> \<le> x" "x < of_int \<lfloor>x\<rfloor> + 1" by linarith+
  then show ?thesis by (auto simp: py_round_def Let_def)
qed

lemma py_round_nonneg: "0 \<le> x \<Longrightarrow> 0 \<le> py_round x"
proof -
  assume "0 \<le> x"
  then have "0 \<le> \<lfloor>x\<rfloor>" by simp
  then show ?thesis by (auto simp: py_round_def Let_def)
qed

lemma str_int_zero: "str_int 0 = ''0''"
  by (simp add: str_int_def str_nat.simps digit_char_def)

lemma framerate_not_zero: "framerate secs \<noteq> ''-framerate 1/0''"
proof (cases "secs = 0")
  case True
  then show ?thesis by (simp add: framerate_def)
next
  case False
  have "str_int secs \<noteq> ''0''"
  proof
    assume "str_int secs = ''0''"
    then have "str_int secs = str_int 0" by (simp add: str_int_zero)
    then have "secs = 0" by (rule str_int_inj)
    with False show False by simp
  qed
  with False show ?thesis by (simp add: framerate_def)
qed

section \<open>The compatibility check: results\<close>

text \<open>
  C1, as the code has it. Two probed files with different file names, whose streams are the same but for one
  stream at the same place and with the same index (an index that no later video or audio
  stream of the file takes again, as is the case when FFprobe numbers the streams of a
  file): when that stream is a video stream and differs in width or in height, or is an
  audio stream and differs in sample rate, \<open>compare_media_param\<close> returns the message
  that the files do not match.
\<close>

theorem compare_media_param_differing_stream:
  assumes "filename f1 \<noteq> filename f2"
    and "streams f1 = pre @ s # post" and "streams f2 = pre @ s' # post"
    and "index s' = index s" and "codec_type s' = codec_type s"
    and "\<forall>t\<in>set post. is_av t \<longrightarrow> index t \<noteq> index s"
    and "(codec_type s = Some ''video'' \<and> (width s' \<noteq> width s \<or> height s' \<noteq> height s))
       \<or> (codec_type s = Some ''audio'' \<and> sample_rate s' \<noteq> sample_rate s)"
  shows "compare_media_param [f1, f2] = Some StreamsMismatch"
proof -
  let ?d = "foldl add_stream [] pre"
  have a1: "map_of (file_signature f1) (index s) = map_of (add_stream ?d s) (index s)"
    using assms(2,6) by (rule signature_lookup)
  have "\<forall>t\<in>set post. is_av t \<longrightarrow> index t \<noteq> index s'" using assms(4,6) by simp
  with assms(3)
  have "map_of (file_signature f2) (index s') = map_of (add_stream ?d s') (index s')"
    by (rule signature_lookup)
  with assms(4)
  have a2: "map_of (file_signature f2) (index s) = map_of (add_stream ?d s') (index s')"
    by simp
  from assms(7) show ?thesis
  proof
    assume v: "codec_type s = Some ''video'' \<and> (width s' \<noteq> width s \<or> height s' \<noteq> height s)"
    then have "size_str s \<noteq> size_str s'" using size_str_inj [of s s'] by auto
    then have "[pv_str (codec_name s), PStr (size_str s)]
        \<noteq> [pv_str (codec_name s'), PStr (size_str s')]"
      by simp
    moreover from v a1
    have "map_of (file_signature f1) (index s) = Some [pv_str (codec_name s), PStr (size_str s)]"
      by (simp add: add_stream_lookup_video)
    moreover from v a2 assms(5)
    have "map_of (file_signature f2) (index s)
        = Some [pv_str (codec_name s'), PStr (size_str s')]"
      by (simp add: add_stream_lookup_video)
    ultimately show ?thesis using assms(1) two_files_mismatch by blast
  next
    assume v: "codec_type s = Some ''audio'' \<and> sample_rate s' \<noteq> sample_rate s"
    then have "[pv_str (codec_name s), sample_rate s] \<noteq> [pv_str (codec_name s'), sample_rate s']"
      by auto
    moreover from v a1
    have "map_of (file_signature f1) (index s) = Some [pv_str (codec_name s), sample_rate s]"
      by (simp add: add_stream_lookup_audio)
    moreover from v a2 assms(5)
    have "map_of (file_signature f2) (index s) = Some [pv_str (codec_name s'), sample_rate s']"
      by (simp add: add_stream_lookup_audio)
    ultimately show ?thesis using assms(1) two_files_mismatch by blast
  qed
qed

theorem compare_media_param_differing_stream_witness:
  "compare_media_param
     [\<lparr>filename = Some ''a.mp4'', streams = [video_1080, audio_44100]\<rparr>,
      \<lparr>filename = Some ''b.mp4'', streams = [video_1080\<lparr>width := Some 1280\<rparr>, audio_44100]\<rparr>]
   = Some StreamsMismatch"
  by (rule compare_media_param_differing_stream
        [where pre = "[]" and s = video_1080 and post = "[audio_44100]"
           and s' = "video_1080\<lparr>width := Some 1280\<rparr>"])
     (simp_all add: video_1080_def audio_44100_def is_av_def)

text \<open>
  C1 as stated, for any two probed files, fails in two ways. Two items of \<open>data\<close> with the
  same file name share one entry of \<open>com\<close>, so a height of 1080 against 720 goes
  unnoticed; and when an audio stream takes the index of the video stream before it, the
  video entry is overwritten in both files, so a width of 1920 against 1280 goes unnoticed.
  In both cases the answer is \<open>None\<close>.
\<close>

theorem compare_media_param_differing_stream_counterexample:
  "compare_media_param
     [\<lparr>filename = Some ''a.mp4'', streams = [video_1080]\<rparr>,
      \<lparr>filename = Some ''a.mp4'', streams = [video_1080\<lparr>height := Some 720\<rparr>]\<rparr>] = None
   \<and> compare_media_param
     [\<lparr>filename = Some ''a.mp4'',
       streams = [video_1080, audio_44100\<lparr>index := Some 0\<rparr>]\<rparr>,
      \<lparr>filename = Some ''b.mp4'',
       streams = [video_1080\<lparr>width := Some 1280\<rparr>, audio_44100\<lparr>index := Some 0\<rparr>]\<rparr>] = None"
  by (simp add: compare_media_param_def build_com_def file_signature_def add_stream_def
        dict_values_def dict_eq_def video_1080_def audio_44100_def Let_def)

text \<open>
  C3, as the code has it. A sequence of exactly one probed file is answered with ``At least
  two files are required to perform concatenation.''; the empty sequence is not: it passes
  the test on the length, leaves \<open>com\<close> empty and is answered with ``Invalid data found''.
\<close>

theorem compare_media_param_single_file:
  "(length data = 1 \<longrightarrow> compare_media_param data = Some AtLeastTwoFiles)
   \<and> compare_media_param [] = Some InvalidDataFound"
  by (simp add: compare_media_param_def build_com_def)

theorem compare_media_param_single_file_witness:
  "length [\<lparr>filename = Some ''a.mp4'', streams = [video_1080]\<rparr>] = 1
   \<and> compare_media_param [\<lparr>filename = Some ''a.mp4'', streams = [video_1080]\<rparr>]
       = Some AtLeastTwoFiles"
  using compare_media_param_single_file
          [of "[\<lparr>filename = Some ''a.mp4'', streams = [video_1080]\<rparr>]"]
  by simp

text \<open>
  C3 as stated fails on the empty sequence: the answer there is not the message that at
  least two files are required.
\<close>

theorem compare_media_param_empty_counterexample:
  "compare_media_param [] \<noteq> Some AtLeastTwoFiles"
  by (simp add: compare_media_param_def build_com_def)

text \<open>
  C5. When a sequence of at least two probed files gives signatures that are all equal
  (as Python dictionaries), \<open>compare_media_param\<close> returns \<open>None\<close>, and it returns the same
  for every permutation of the sequence. (For sequences of any signatures, the order plays
  no part either as long as the file names are pairwise different: that is
  \<open>compare_media_param_permutation\<close> above.)
\<close>

theorem compare_media_param_same_signatures:
  assumes "2 \<le> length data"
    and "\<forall>f\<in>set data. \<forall>g\<in>set data. dict_eq (file_signature f) (file_signature g)"
    and "mset data' = mset data"
  shows "compare_media_param data = None
    \<and> compare_media_param data' = compare_media_param data"
proof -
  from assms(3) have s: "set data' = set data" by (rule mset_eq_setD)
  from assms(3) have l: "length data' = length data" by (rule mset_eq_length)
  from assms(1) have "length data \<noteq> 1" "data \<noteq> []" by auto
  with assms(2) have a: "compare_media_param data = None" by (simp add: same_signatures_pass)
  from assms(1) l have "length data' \<noteq> 1" "data' \<noteq> []" by auto
  with assms(2) s have "compare_media_param data' = None" by (simp add: same_signatures_pass)
  with a show ?thesis by simp
qed

theorem compare_media_param_same_signatures_witness:
  "compare_media_param
     [\<lparr>filename = Some ''a.mp4'', streams = [video_1080, audio_44100]\<rparr>,
      \<lparr>filename = Some ''b.mkv'', streams = [audio_44100, video_1080]\<rparr>] = None
   \<and> compare_media_param
     [\<lparr>filename = Some ''b.mkv'', streams = [audio_44100, video_1080]\<rparr>,
      \<lparr>filename = Some ''a.mp4'', streams = [video_1080, audio_44100]\<rparr>]
     = compare_media_param
     [\<lparr>filename = Some ''a.mp4'', streams = [video_1080, audio_44100]\<rparr>,
      \<lparr>filename = Some ''b.mkv'', streams = [audio_44100, video_1080]\<rparr>]"
  by (rule compare_media_param_same_signatures)
     (simp_all add: file_signature_def add_stream_def dict_eq_def video_1080_def
        audio_44100_def)

text \<open>
  C7. When no file of a sequence of at least two probed files has a video or an audio
  stream, \<open>compare_media_param\<close> returns \<open>None\<close>; and for every sequence the result is the
  one obtained after the streams of every other type are removed from each file.
\<close>

theorem compare_media_param_other_streams:
  "(2 \<le> length data \<and> (\<forall>f\<in>set data. \<forall>s\<in>set (streams f). \<not> is_av s)
      \<longrightarrow> compare_media_param data = None)
   \<and> compare_media_param (map drop_other_streams data) = compare_media_param data"
proof
  show "2 \<le> length data \<and> (\<forall>f\<in>set data. \<forall>s\<in>set (streams f). \<not> is_av s)
      \<longrightarrow> compare_media_param data = None"
  proof
    assume a: "2 \<le> length data \<and> (\<forall>f\<in>set data. \<forall>s\<in>set (streams f). \<not> is_av s)"
    then have "\<forall>f\<in>set data. file_signature f = []" by (simp add: no_av_signature)
    then have "\<forall>f\<in>set data. \<forall>g\<in>set data. dict_eq (file_signature f) (file_signature g)"
      by (simp add: dict_eq_def)
    moreover from a have "length data \<noteq> 1" "data \<noteq> []" by auto
    ultimately show "compare_media_param data = None" by (simp add: same_signatures_pass)
  qed
  show "compare_media_param (map drop_other_streams data) = compare_media_param data"
    by (simp add: compare_media_param_def build_com_drop)
qed

theorem compare_media_param_other_streams_witness:
  "2 \<le> length [\<lparr>filename = Some ''a.srt'', streams = [subtitle_stream]\<rparr>,
                \<lparr>filename = Some ''b.srt'', streams = []\<rparr>]
   \<and> compare_media_param [\<lparr>filename = Some ''a.srt'', streams = [subtitle_stream]\<rparr>,
                          \<lparr>filename = Some ''b.srt'', streams = []\<rparr>] = None"
  using compare_media_param_other_streams
          [of "[\<lparr>filename = Some ''a.srt'', streams = [subtitle_stream]\<rparr>,
                \<lparr>filename = Some ''b.srt'', streams = []\<rparr>]"]
  by (simp add: subtitle_stream_def is_av_def)

section \<open>The slideshow timing: results\<close>



lemma slideshow_duration:
  "snd (fst (build_command_slideshow U self tline)) = fst (snd (slideshow_timing U self tline))"
  by (simp add: build_command_slideshow_def Let_def split: prod.splits)

lemma slideshow_interval:
  "Interval (snd (build_command_slideshow U self tline))
     = PInt (snd (snd (snd (slideshow_timing U self tline))))"
  by (simp add: build_command_slideshow_def Let_def split: prod.splits)

lemma slideshow_secs:
  "snd (snd (snd (slideshow_timing U self tline))) = py_round (get_seconds U tline)"
  by (simp add: slideshow_timing_def Let_def)

lemma slideshow_preinput:
  "Preinput (snd (build_command_slideshow U self tline))
     = fst (slideshow_timing U self tline) @ '' '' @ framerate (py_round (get_seconds U tline))"
  by (simp add: build_command_slideshow_def slideshow_timing_def Let_def)

lemma loop_image_duration:
  "snd (fst (build_command_loop_image U self tline)) = fst (loop_image_timing U self tline)"
  by (simp add: build_command_loop_image_def Let_def split: prod.splits)


lemma py_split_one: "py_split ''-ss 00:00:00.000 -t 00:00:01.000''
    = [''-ss'', ''00:00:00.000'', ''-t'', ''00:00:01.000'']"
  by (simp add: py_split_def is_space_def)

lemma ms_of_clock_one: "ms_of_clock ''00:00:01.000'' = 1000"
  by (simp add: ms_of_clock_def nat_of_digits_def digit_val_def)

lemma ms_of_clock_five: "ms_of_clock ''00:00:05.000'' = 5000"
  by (simp add: ms_of_clock_def nat_of_digits_def digit_val_def)

lemma ms_of_clock_400: "ms_of_clock ''00:00:00.400'' = 400"
  by (simp add: ms_of_clock_def nat_of_digits_def digit_val_def)

lemma py_round_one: "py_round 1 = 1"
  by (simp add: py_round_def)

lemma py_round_five: "py_round 5 = 5"
  by (simp add: py_round_def)

lemma py_round_two_fifths: "py_round (2 / 5) = 0"
proof -
  have "\<lfloor>2 / 5 :: rat\<rfloor> = 0" by (rule floor_unique) simp_all
  then show ?thesis by (simp add: py_round_def Let_def)
qed

lemma str_int_five: "str_int 5 = ''5''"
  by (simp add: str_int_def str_nat.simps digit_char_def)

text \<open>
  C2. In \<open>build_command_slideshow\<close>, when the audio box is not ticked, or it is ticked and
  \<open>opt["Shortest"]\<close> is the pair for ``Enabled'', the duration returned is the per-image
  duration in milliseconds times the number of source files, and the interval stored is
  the per-image duration in seconds rounded to an integer no further than one half away.
\<close>

theorem slideshow_duration_is_per_image_times_count:
  assumes "\<not> ckbx_audio self
     \<or> (ckbx_audio self \<and> Shortest (opt self) = (''-shortest'', ''Enabled''))"
  shows "snd (fst (build_command_slideshow U self timeline))
       = get_milliseconds U timeline * int (length (file_src self))
    \<and> Interval (snd (build_command_slideshow U self timeline))
       = PInt (py_round (get_seconds U timeline))
    \<and> \<bar>of_int (py_round (get_seconds U timeline)) - get_seconds U timeline\<bar> \<le> 1 / 2"
proof -
  from assms have "fst (snd (slideshow_timing U self timeline))
      = get_milliseconds U timeline * int (length (file_src self))"
    by (auto simp: slideshow_timing_def Let_def)
  then have "snd (fst (build_command_slideshow U self timeline))
      = get_milliseconds U timeline * int (length (file_src self))"
    by (simp add: slideshow_duration)
  moreover have "Interval (snd (build_command_slideshow U self timeline))
      = PInt (py_round (get_seconds U timeline))"
    by (simp add: slideshow_interval slideshow_secs)
  moreover have "\<bar>of_int (py_round (get_seconds U timeline)) - get_seconds U timeline\<bar> \<le> 1 / 2"
    by (rule py_round_nearest)
  ultimately show ?thesis by blast
qed

theorem slideshow_duration_is_per_image_times_count_witness:
  "snd (fst (build_command_slideshow clock_utils three_images ''00:00:01.000'')) = 3000
   \<and> Interval (snd (build_command_slideshow clock_utils three_images ''00:00:01.000'')) = PInt 1"
  using slideshow_duration_is_per_image_times_count
          [of three_images clock_utils "''00:00:01.000''"]
  by (simp add: three_images_def clock_utils_def ms_of_clock_one py_round_one)

text \<open>
  C4. When the audio box is ticked and \<open>opt["Shortest"]\<close> is the pair for ``Disabled'', both
  \<open>build_command_slideshow\<close> and \<open>build_command_loop_image\<close> return \<open>opt["ADuration"]\<close>, the
  length of the audio track in milliseconds, as the duration, whatever the per-image
  duration and the number of files.
\<close>

theorem audio_duration_when_shortest_disabled:
  assumes "ckbx_audio self" and "Shortest (opt self) = ('''', ''Disabled'')"
  shows "snd (fst (build_command_slideshow U self timeline)) = ADuration (opt self)
    \<and> snd (fst (build_command_loop_image U self timeline)) = ADuration (opt self)"
  using assms
  by (simp add: slideshow_duration loop_image_duration slideshow_timing_def
        loop_image_timing_def Let_def)

theorem audio_duration_when_shortest_disabled_witness:
  "snd (fst (build_command_slideshow clock_utils with_audio ''00:00:01.000'')) = 12345
   \<and> snd (fst (build_command_loop_image clock_utils with_audio ''00:00:01.000'')) = 12345"
  using audio_duration_when_shortest_disabled [of with_audio clock_utils "''00:00:01.000''"]
  by (simp add: with_audio_def three_images_def initial_opt_def)

text \<open>
  C6. In \<open>build_command_loop_image\<close> with the audio box not ticked, the duration returned
  is the per-image duration in milliseconds itself; the number of files plays no part.
\<close>

theorem loop_image_duration_without_audio:
  assumes "\<not> ckbx_audio self"
  shows "snd (fst (build_command_loop_image U self timeline)) = get_milliseconds U timeline"
  using assms by (simp add: loop_image_duration loop_image_timing_def)

theorem loop_image_duration_without_audio_witness:
  "snd (fst (build_command_loop_image clock_utils three_images ''00:00:05.000'')) = 5000"
  using loop_image_duration_without_audio [of three_images clock_utils "''00:00:05.000''"]
  by (simp add: three_images_def clock_utils_def ms_of_clock_five)

text \<open>
  C8, as the code has it. \<open>get_args_line\<close> checks no duration. Whenever the time sequence
  has its four fields it returns a result, whatever the sign of the per-image duration;
  in slideshow mode without audio the duration returned is the per-image duration in
  milliseconds times the number of source files, which for a negative per-image duration
  and at least one file is a negative number.
\<close>

theorem get_args_line_accepts_negative_duration:
  assumes "3 < length (py_split (time_seq self))"
  shows "\<exists>r. get_args_line U self = Inr r
    \<and> (\<not> ckbx_static_img self \<and> \<not> ckbx_audio self \<longrightarrow>
         snd (fst r) = get_milliseconds U (get_timeline (py_split (time_seq self)))
                         * int (length (file_src self))
         \<and> (get_milliseconds U (get_timeline (py_split (time_seq self))) < 0
              \<and> file_src self \<noteq> [] \<longrightarrow> snd (fst r) < 0))"
proof (cases "ckbx_static_img self")
  case True
  with assms show ?thesis by (simp add: get_args_line_def Let_def)
next
  case False
  let ?line = "get_timeline (py_split (time_seq self))"
  let ?d = "snd (fst (build_command_slideshow U self ?line))"
  have main: "\<not> ckbx_audio self \<longrightarrow>
      ?d = get_milliseconds U ?line * int (length (file_src self))
      \<and> (get_milliseconds U ?line < 0 \<and> file_src self \<noteq> [] \<longrightarrow> ?d < 0)"
  proof
    assume a: "\<not> ckbx_audio self"
    then have eq: "?d = get_milliseconds U ?line * int (length (file_src self))"
      by (simp add: slideshow_duration slideshow_timing_def Let_def)
    have "get_milliseconds U ?line < 0 \<and> file_src self \<noteq> [] \<longrightarrow> ?d < 0"
    proof
      assume n: "get_milliseconds U ?line < 0 \<and> file_src self \<noteq> []"
      then have "0 < int (length (file_src self))" by simp
      with n have "get_milliseconds U ?line * int (length (file_src self)) < 0"
        by (simp add: mult_neg_pos)
      with eq show "?d < 0" by simp
    qed
    with eq show "?d = get_milliseconds U ?line * int (length (file_src self))
      \<and> (get_milliseconds U ?line < 0 \<and> file_src self \<noteq> [] \<longrightarrow> ?d < 0)"
      by simp
  qed
  from False assms
  have res: "get_args_line U self = Inr (build_command_slideshow U self ?line)"
    by (simp add: get_args_line_def Let_def)
  show ?thesis
  proof (rule exI [of _ "build_command_slideshow U self ?line"], rule conjI)
    show "get_args_line U self = Inr (build_command_slideshow U self ?line)" by (rule res)
    show "\<not> ckbx_static_img self \<and> \<not> ckbx_audio self \<longrightarrow>
      ?d = get_milliseconds U ?line * int (length (file_src self))
      \<and> (get_milliseconds U ?line < 0 \<and> file_src self \<noteq> [] \<longrightarrow> ?d < 0)"
      using main by blast
  qed
qed

theorem get_args_line_accepts_negative_duration_witness:
  "\<exists>r. get_args_line negative_utils three_images = Inr r
     \<and> snd (fst r) = - 6000 \<and> snd (fst r) < 0"
  using get_args_line_accepts_negative_duration [of three_images negative_utils]
  by (simp add: py_split_one three_images_def negative_utils_def)

text \<open>
  C8 as stated fails: with helpers that report a per-image duration of \<open>-2000\<close> ms,
  \<open>get_args_line\<close> on three images returns a result, with the duration \<open>-6000\<close>.
\<close>

theorem get_args_line_negative_counterexample:
  "get_milliseconds negative_utils ''00:00:01.000'' = - 2000
   \<and> \<not> isl (get_args_line negative_utils three_images)
   \<and> snd (fst (projr (get_args_line negative_utils three_images))) = - 6000"
  by (simp add: get_args_line_def py_split_one get_timeline_def three_images_def
        negative_utils_def slideshow_duration slideshow_timing_def Let_def)



text \<open>
  C10, as the code has it. \<open>build_command_slideshow\<close> stores in \<open>opt["Preinput"]\<close> the loop options, a blank and
  the frame-rate fragment. The fragment is \<open>-framerate 1/1\<close> when the rounded interval is
  zero and \<open>-framerate 1/\<close> followed by the interval otherwise; it is never
  \<open>-framerate 1/0\<close>; and when the per-image duration in seconds is not negative, the
  number after the stroke is greater than zero.
\<close>

theorem slideshow_framerate_denominator:
  "Preinput (snd (build_command_slideshow U self timeline))
     = fst (slideshow_timing U self timeline) @ '' ''
         @ framerate (py_round (get_seconds U timeline))
   \<and> framerate (py_round (get_seconds U timeline)) \<noteq> ''-framerate 1/0''
   \<and> (py_round (get_seconds U timeline) = 0
        \<longrightarrow> framerate (py_round (get_seconds U timeline)) = ''-framerate 1/1'')
   \<and> (py_round (get_seconds U timeline) \<noteq> 0
        \<longrightarrow> framerate (py_round (get_seconds U timeline))
            = ''-framerate 1/'' @ str_int (py_round (get_seconds U timeline)))
   \<and> (0 \<le> get_seconds U timeline
        \<longrightarrow> (\<exists>d. 0 < d \<and> framerate (py_round (get_seconds U timeline))
                              = ''-framerate 1/'' @ str_int d))"
proof -
  let ?s = "py_round (get_seconds U timeline)"
  have "0 \<le> get_seconds U timeline
      \<longrightarrow> (\<exists>d. 0 < d \<and> framerate ?s = ''-framerate 1/'' @ str_int d)"
  proof
    assume "0 \<le> get_seconds U timeline"
    then have nn: "0 \<le> ?s" by (rule py_round_nonneg)
    show "\<exists>d. 0 < d \<and> framerate ?s = ''-framerate 1/'' @ str_int d"
    proof (cases "?s = 0")
      case True
      have "str_int 1 = ''1''" by (simp add: str_int_def str_nat.simps digit_char_def)
      with True have "0 < (1::int) \<and> framerate ?s = ''-framerate 1/'' @ str_int 1"
        by (simp add: framerate_def)
      then show ?thesis by blast
    next
      case False
      with nn have "0 < ?s \<and> framerate ?s = ''-framerate 1/'' @ str_int ?s"
        by (simp add: framerate_def)
      then show ?thesis by blast
    qed
  qed
  moreover have "Preinput (snd (build_command_slideshow U self timeline))
      = fst (slideshow_timing U self timeline) @ '' '' @ framerate ?s"
    by (rule slideshow_preinput)
  moreover have "framerate ?s \<noteq> ''-framerate 1/0''" by (rule framerate_not_zero)
  moreover have "?s = 0 \<longrightarrow> framerate ?s = ''-framerate 1/1''" by (simp add: framerate_def)
  moreover have "?s \<noteq> 0 \<longrightarrow> framerate ?s = ''-framerate 1/'' @ str_int ?s"
    by (simp add: framerate_def)
  ultimately show ?thesis by blast
qed

theorem slideshow_framerate_denominator_witness:
  "Preinput (snd (build_command_slideshow clock_utils three_images ''00:00:00.400''))
     = '' -framerate 1/1''
   \<and> Preinput (snd (build_command_slideshow clock_utils three_images ''00:00:05.000''))
     = '' -framerate 1/5''"
  using slideshow_framerate_denominator [of clock_utils three_images "''00:00:00.400''"]
    slideshow_framerate_denominator [of clock_utils three_images "''00:00:05.000''"]
  by (simp add: three_images_def clock_utils_def slideshow_timing_def ms_of_clock_400
        ms_of_clock_five py_round_two_fifths py_round_five str_int_five)

text \<open>
  C10 as stated, for every invocation, fails on the sign: the source tests the interval
  against zero only, and with helpers that report a per-image duration of minus two
  seconds the number after the stroke is \<open>-2\<close>.
\<close>

theorem slideshow_framerate_denominator_counterexample:
  "Preinput (snd (build_command_slideshow negative_utils three_images ''00:00:01.000''))
     = '' -framerate 1/-2''"
proof -
  have "py_round (- 2) = - 2" by (simp add: py_round_def)
  moreover have "str_int (- 2) = ''-2''"
    by (simp add: str_int_def str_nat.simps digit_char_def)
  ultimately show ?thesis
    by (simp add: slideshow_preinput slideshow_timing_def framerate_def three_images_def
          negative_utils_def)
qed

end
